theory Spec2Isabelle
  imports Complex_Main
begin

section \<open>Sample buffers, floats and Python indexing\<close>

text \<open>
  A sample buffer is the list of its samples; the sample rate \<open>sr\<close> is an integer.
  The loops of the effects only add and multiply samples, so the sample type is left
  open (\<open>'a\<close> with \<open>+\<close> and \<open>*\<close>, no law assumed): what is proved about these loops holds
  for any arithmetic on samples, rounded or exact, with or without infinities.
\<close>

datatype error = IndexError | ValueError | OverflowError

definition bind_result :: "error + 'a \<Rightarrow> ('a \<Rightarrow> error + 'b) \<Rightarrow> error + 'b" where
  "bind_result r f = (case r of Inl e \<Rightarrow> Inl e | Inr v \<Rightarrow> f v)"

text \<open>
  A float of the source is a finite real number, an infinity or NaN. Its arithmetic
  rounds, so the operations the source applies to floats are parameters of the model,
  one record of them for a whole run; nothing is assumed of them. \<open>int_mul\<close> is the
  product \<open>sr * t\<close> of a Python integer and a float (it raises OverflowError when the
  integer is too large for a float); \<open>fmul\<close>, \<open>fdiv\<close>, \<open>fsub\<close> and \<open>fsin\<close> are numpy's
  product, quotient, difference and sine. A time or a rate passed to an effect is a
  finite float, a real number.
\<close>

datatype fvalue = Finite real | PosInf | NegInf | NaN

record float_ops =
  int_mul :: "int \<Rightarrow> real \<Rightarrow> error + fvalue"
  fmul :: "fvalue \<Rightarrow> fvalue \<Rightarrow> fvalue"
  fdiv :: "fvalue \<Rightarrow> fvalue \<Rightarrow> fvalue"
  fsub :: "fvalue \<Rightarrow> fvalue \<Rightarrow> fvalue"
  fsin :: "fvalue \<Rightarrow> fvalue"

text \<open>
  \<open>int(x)\<close> truncates a finite float toward zero, raises OverflowError on an infinity
  and ValueError on NaN. \<open>to_samples fl sr t\<close> is the source's \<open>int(sr * t)\<close>, the number
  of samples in \<open>t\<close> seconds.
\<close>

definition trunc_toward_zero :: "real \<Rightarrow> int" where
  "trunc_toward_zero x = (if 0 \<le> x then \<lfloor>x\<rfloor> else \<lceil>x\<rceil>)"

definition py_int :: "fvalue \<Rightarrow> error + int" where
  "py_int v =
     (case v of
        Finite x \<Rightarrow> Inr (trunc_toward_zero x)
      | PosInf \<Rightarrow> Inl OverflowError
      | NegInf \<Rightarrow> Inl OverflowError
      | NaN \<Rightarrow> Inl ValueError)"

definition to_samples :: "float_ops \<Rightarrow> int \<Rightarrow> real \<Rightarrow> error + int" where
  "to_samples fl sr t = bind_result (int_mul fl sr t) py_int"

text \<open>
  An index \<open>i\<close> into a buffer of length \<open>n\<close>: \<open>0 \<le> i < n\<close> counts from the start,
  \<open>-n \<le> i < 0\<close> from the end, anything else raises IndexError.
\<close>

definition py_index :: "nat \<Rightarrow> int \<Rightarrow> error + nat" where
  "py_index n i =
     (if 0 \<le> i \<and> i < int n then Inr (nat i)
      else if - int n \<le> i \<and> i < 0 then Inr (nat (int n + i))
      else Inl IndexError)"

definition getitem :: "'a list \<Rightarrow> int \<Rightarrow> error + 'a" where
  "getitem xs i = (case py_index (length xs) i of Inl e \<Rightarrow> Inl e | Inr k \<Rightarrow> Inr (xs ! k))"

definition setitem :: "'a list \<Rightarrow> int \<Rightarrow> 'a \<Rightarrow> error + 'a list" where
  "setitem xs i v =
     (case py_index (length xs) i of Inl e \<Rightarrow> Inl e | Inr k \<Rightarrow> Inr (xs[k := v]))"

text \<open>\<open>range(a, b)\<close> is \<open>a, a + 1, ..., b - 1\<close>.\<close>

definition py_range :: "int \<Rightarrow> int \<Rightarrow> int list" where
  "py_range a b = [a..b - 1]"

section \<open>Feedback delay\<close>

text \<open>
  \<open>apply_delay\<close> computes \<open>delay_samples = int(sr * delay_time)\<close>, starts from a
  zero-filled buffer of the input's length and runs
  \<open>delayed_audio[i] = audio_data[i] + feedback * delayed_audio[i - delay_samples]\<close>
  for \<open>i\<close> in \<open>range(delay_samples, len(audio_data))\<close>.
\<close>

fun delay_loop :: "'a::{plus,times} list \<Rightarrow> int \<Rightarrow> 'a \<Rightarrow> int list \<Rightarrow> 'a list \<Rightarrow> error + 'a list" where
  "delay_loop audio_data delay_samples feedback [] delayed_audio = Inr delayed_audio"
| "delay_loop audio_data delay_samples feedback (i # rest) delayed_audio =
     (case getitem audio_data i of Inl e \<Rightarrow> Inl e | Inr x \<Rightarrow>
      (case getitem delayed_audio (i - delay_samples) of Inl e \<Rightarrow> Inl e | Inr y \<Rightarrow>
       (case setitem delayed_audio i (x + feedback * y) of Inl e \<Rightarrow> Inl e
        | Inr delayed_audio' \<Rightarrow>
            delay_loop audio_data delay_samples feedback rest delayed_audio')))"

definition apply_delay ::
  "float_ops \<Rightarrow> 'a::{zero,plus,times} list \<Rightarrow> int \<Rightarrow> real \<Rightarrow> 'a \<Rightarrow> error + 'a list" where
  "apply_delay fl audio_data sr delay_time feedback =
     bind_result (to_samples fl sr delay_time) (\<lambda>delay_samples.
       let delayed_audio = replicate (length audio_data) 0
       in delay_loop audio_data delay_samples feedback
            (py_range delay_samples (int (length audio_data))) delayed_audio)"

section \<open>Echo\<close>

text \<open>
  \<open>apply_echo\<close> copies the input, computes \<open>delay_samples = int(sr * delay_factor)\<close> and
  runs \<open>echo_audio[i] += decay * audio_data[i - delay_samples]\<close> for \<open>i\<close> in
  \<open>range(delay_samples, len(audio_data))\<close>: the repeat is read from the input, not
  from the output. \<open>apply_strong_echo\<close> has the same body.
\<close>

fun echo_loop :: "'a::{plus,times} list \<Rightarrow> int \<Rightarrow> 'a \<Rightarrow> int list \<Rightarrow> 'a list \<Rightarrow> error + 'a list" where
  "echo_loop audio_data delay_samples decay [] echo_audio = Inr echo_audio"
| "echo_loop audio_data delay_samples decay (i # rest) echo_audio =
     (case getitem echo_audio i of Inl e \<Rightarrow> Inl e | Inr x \<Rightarrow>
      (case getitem audio_data (i - delay_samples) of Inl e \<Rightarrow> Inl e | Inr y \<Rightarrow>
       (case setitem echo_audio i (x + decay * y) of Inl e \<Rightarrow> Inl e
        | Inr echo_audio' \<Rightarrow> echo_loop audio_data delay_samples decay rest echo_audio')))"

definition apply_echo ::
  "float_ops \<Rightarrow> 'a::{plus,times} list \<Rightarrow> int \<Rightarrow> real \<Rightarrow> 'a \<Rightarrow> error + 'a list" where
  "apply_echo fl audio_data sr delay_factor decay =
     (let echo_audio = audio_data
      in bind_result (to_samples fl sr delay_factor) (\<lambda>delay_samples.
           echo_loop audio_data delay_samples decay
             (py_range delay_samples (int (length audio_data))) echo_audio))"

definition apply_strong_echo ::
  "float_ops \<Rightarrow> 'a::{plus,times} list \<Rightarrow> int \<Rightarrow> real \<Rightarrow> 'a \<Rightarrow> error + 'a list" where
  "apply_strong_echo fl audio_data sr delay_factor decay =
     (let echo_audio = audio_data
      in bind_result (to_samples fl sr delay_factor) (\<lambda>delay_samples.
           echo_loop audio_data delay_samples decay
             (py_range delay_samples (int (length audio_data))) echo_audio))"

section \<open>Reversal\<close>

text \<open>\<open>audio_data[::-1]\<close>: the samples in reverse order.\<close>

definition apply_reversed_voice :: "'a list \<Rightarrow> 'a list" where
  "apply_reversed_voice audio_data = rev audio_data"

section \<open>Chorus\<close>

text \<open>
  The modulator is \<open>sin(2 * pi * rate * i / sr)\<close>, computed on the whole index array and
  then scaled in place by \<open>depth * sr\<close>; \<open>np.pi\<close> is the float 3.141592653589793. The
  loop adds \<open>audio_data[delay_index]\<close> to sample \<open>i\<close> of a copy of the input when
  \<open>delay_index = int(i - modulator[i])\<close> lies in the buffer. The parameter \<open>delay\<close> is
  not used by the source. An index and a sample rate are taken into a float as they
  are (they are far below \<open>2 ^ 53\<close>).
\<close>

definition np_pi :: real where
  "np_pi = 884279719003555 / 281474976710656"

definition chorus_modulator :: "float_ops \<Rightarrow> int \<Rightarrow> real \<Rightarrow> fvalue \<Rightarrow> nat \<Rightarrow> fvalue" where
  "chorus_modulator fl sr rate scale i =
     fmul fl
       (fsin fl
          (fdiv fl
             (fmul fl (fmul fl (fmul fl (Finite 2) (Finite np_pi)) (Finite rate))
                (Finite (real i)))
             (Finite (of_int sr))))
       scale"

fun chorus_loop ::
  "float_ops \<Rightarrow> 'a::plus list \<Rightarrow> (nat \<Rightarrow> fvalue) \<Rightarrow> nat list \<Rightarrow> 'a list \<Rightarrow> error + 'a list" where
  "chorus_loop fl audio_data modulator [] chorus_audio = Inr chorus_audio"
| "chorus_loop fl audio_data modulator (i # rest) chorus_audio =
     (case py_int (fsub fl (Finite (real i)) (modulator i)) of
        Inl e \<Rightarrow> Inl e
      | Inr delay_index \<Rightarrow>
          chorus_loop fl audio_data modulator rest
            (if 0 \<le> delay_index \<and> delay_index < int (length audio_data)
             then chorus_audio[i := chorus_audio ! i + audio_data ! nat delay_index]
             else chorus_audio))"

definition apply_chorus ::
  "float_ops \<Rightarrow> 'a::plus list \<Rightarrow> int \<Rightarrow> real \<Rightarrow> real \<Rightarrow> real \<Rightarrow> error + 'a list" where
  "apply_chorus fl audio_data sr depth delay rate =
     bind_result (int_mul fl sr depth) (\<lambda>scale.
       chorus_loop fl audio_data (chorus_modulator fl sr rate scale)
         [0..<length audio_data] audio_data)"

section \<open>Clipping, reverb and the haunted preset\<close>

text \<open>
  \<open>np.clip(x, lo, hi)\<close> is the minimum of \<open>hi\<close> and the maximum of \<open>x\<close> and \<open>lo\<close>.
  Calls into librosa and scipy are parameters of the model: a collaborator returns a
  buffer or raises, and what it raises passes through the caller unchanged.
\<close>

definition clip :: "'a::ord \<Rightarrow> 'a \<Rightarrow> 'a \<Rightarrow> 'a" where
  "clip x lo hi = min (max x lo) hi"

definition apply_reverb ::
  "('a list \<Rightarrow> error + 'a list) \<Rightarrow> 'a::{times,ord,one,uminus} list \<Rightarrow> int \<Rightarrow> 'a \<Rightarrow> error + 'a list" where
  "apply_reverb preemphasis audio_data sr reverb_amount =
     bind_result (preemphasis audio_data)
       (\<lambda>reverb_data. Inr (map (\<lambda>x. clip (x * reverb_amount) (- 1) 1) reverb_data))"

definition apply_haunted_voice ::
  "float_ops \<Rightarrow> (real list \<Rightarrow> error + real list) \<Rightarrow> real list \<Rightarrow> int \<Rightarrow> error + real list" where
  "apply_haunted_voice fl preemphasis audio_data sr =
     bind_result (apply_reverb preemphasis audio_data sr (9 / 10))
       (\<lambda>haunted_voice. apply_echo fl haunted_voice sr (3 / 10) (8 / 10))"

section \<open>Stutter\<close>

text \<open>
  A slice \<open>xs[lo:hi]\<close> clamps its bounds to the buffer, counting a negative bound from
  the end. \<open>range(start, stop, step)\<close> raises ValueError for \<open>step = 0\<close>.
\<close>

definition slice_index :: "nat \<Rightarrow> int \<Rightarrow> nat" where
  "slice_index n i = (if i < 0 then nat (max 0 (int n + i)) else min n (nat i))"

definition py_slice :: "'a list \<Rightarrow> int \<Rightarrow> int \<Rightarrow> 'a list" where
  "py_slice xs lo hi =
     (let a = slice_index (length xs) lo; b = slice_index (length xs) hi
      in take (b - a) (drop a xs))"

function range_from :: "int \<Rightarrow> int \<Rightarrow> int \<Rightarrow> int list" where
  "range_from i stop step =
     (if (0 < step \<and> i < stop) \<or> (step < 0 \<and> stop < i)
      then i # range_from (i + step) stop step else [])"
  by pat_completeness auto
termination
  by (relation "measure (\<lambda>(i, stop, step). nat (if 0 < step then stop - i else i - stop))") auto

declare range_from.simps [simp del]

definition py_range_step :: "int \<Rightarrow> int \<Rightarrow> int \<Rightarrow> error + int list" where
  "py_range_step start stop step =
     (if step = 0 then Inl ValueError else Inr (range_from start stop step))"

text \<open>
  \<open>apply_stuttering_voice\<close>: with \<open>segment_length = int(sr * stutter_factor)\<close>, for \<open>i\<close> in
  \<open>range(0, len(audio_data), segment_length)\<close> the output list is extended by
  \<open>audio_data[i:i + segment_length]\<close> and then by
  \<open>audio_data[i:i + int(segment_length / 2)]\<close>. The quotient of the integer
  \<open>segment_length\<close> by 2 is taken exactly, as a float does below \<open>2 ^ 53\<close>.
\<close>

fun stutter_loop :: "'a list \<Rightarrow> int \<Rightarrow> int list \<Rightarrow> 'a list \<Rightarrow> 'a list" where
  "stutter_loop audio_data segment_length [] stuttering_voice = stuttering_voice"
| "stutter_loop audio_data segment_length (i # rest) stuttering_voice =
     stutter_loop audio_data segment_length rest
       (stuttering_voice
          @ py_slice audio_data i (i + segment_length)
          @ py_slice audio_data i (i + trunc_toward_zero (of_int segment_length / 2)))"

definition apply_stuttering_voice :: "float_ops \<Rightarrow> 'a list \<Rightarrow> int \<Rightarrow> real \<Rightarrow> error + 'a list" where
  "apply_stuttering_voice fl audio_data sr stutter_factor =
     bind_result (to_samples fl sr stutter_factor) (\<lambda>segment_length.
     bind_result (py_range_step 0 (int (length audio_data)) segment_length) (\<lambda>idxs.
       Inr (stutter_loop audio_data segment_length idxs [])))"

text \<open>
  The spec's words for the stutter: the input is cut into contiguous segments of
  \<open>S\<close> samples (the last one may be shorter), and each segment is followed by its
  first \<open>S div 2\<close> samples. Its segment length is \<open>round(sample_rate * segment_fraction)\<close>.
\<close>

function segments :: "nat \<Rightarrow> 'a list \<Rightarrow> 'a list list" where
  "segments S xs = (if S = 0 \<or> xs = [] then [] else take S xs # segments S (drop S xs))"
  by pat_completeness auto
termination
  by (relation "measure (\<lambda>(S, xs). length xs)") auto

declare segments.simps [simp del]

definition spec_stutter :: "nat \<Rightarrow> 'a list \<Rightarrow> 'a list" where
  "spec_stutter S xs = concat (map (\<lambda>seg. seg @ take (S div 2) seg) (segments S xs))"

definition spec_segment_samples :: "int \<Rightarrow> real \<Rightarrow> int" where
  "spec_segment_samples sr segment_fraction = round (of_int sr * segment_fraction)"

section \<open>Girl voice: fading the edges\<close>

text \<open>
  \<open>np.linspace(start, stop, num)\<close> raises ValueError for a negative \<open>num\<close>; for
  \<open>num = 1\<close> it is \<open>[start]\<close>. \<open>xs[lo:hi] *= ys\<close> multiplies the slice in place: \<open>ys\<close> must
  have the slice's length or length 1, anything else raises ValueError (the shapes do
  not broadcast into the slice). The ramp and the products are written with exact
  numbers; only the lengths matter below.
\<close>

definition linspace :: "real \<Rightarrow> real \<Rightarrow> int \<Rightarrow> error + real list" where
  "linspace start stop num =
     (if num < 0 then Inl ValueError
      else Inr (map (\<lambda>k. if num = 1 then start
                          else start + real k * ((stop - start) / of_int (num - 1)))
                  [0..<nat num]))"

definition imul_slice :: "real list \<Rightarrow> int \<Rightarrow> int \<Rightarrow> real list \<Rightarrow> error + real list" where
  "imul_slice xs lo hi ys =
     (let a = slice_index (length xs) lo;
          b = max a (slice_index (length xs) hi);
          m = b - a
      in if length ys = m
         then Inr (take a xs @ map2 (*) (take m (drop a xs)) ys @ drop b xs)
         else if length ys = 1
         then Inr (take a xs @ map (\<lambda>x. x * hd ys) (take m (drop a xs)) @ drop b xs)
         else Inl ValueError)"

text \<open>
  \<open>apply_girl_voice\<close>: pitch shift by 12 semitones, time stretch by 1.2, then
  \<open>girl_voice[:fade_length] *= fade_in\<close> and \<open>girl_voice[-fade_length:] *= fade_out\<close> with
  \<open>fade_length = int(0.03 * sr)\<close>. The slice \<open>[:k]\<close> starts at 0 and \<open>[-k:]\<close> ends at
  the buffer's end; \<open>[-0:]\<close> is the whole buffer.
\<close>

definition apply_girl_voice ::
  "float_ops \<Rightarrow> (real list \<Rightarrow> int \<Rightarrow> real \<Rightarrow> error + real list)
   \<Rightarrow> (real list \<Rightarrow> real \<Rightarrow> error + real list) \<Rightarrow> real list \<Rightarrow> int \<Rightarrow> error + real list" where
  "apply_girl_voice fl pitch_shift time_stretch audio_data sr =
     bind_result (pitch_shift audio_data sr 12) (\<lambda>girl_voice.
     bind_result (time_stretch girl_voice (12 / 10)) (\<lambda>girl_voice.
     bind_result (to_samples fl sr (3 / 100)) (\<lambda>fade_length.
     bind_result (linspace 0 1 fade_length) (\<lambda>fade_in.
     bind_result (linspace 1 0 fade_length) (\<lambda>fade_out.
     bind_result (imul_slice girl_voice 0 fade_length fade_in) (\<lambda>girl_voice.
     imul_slice girl_voice (- fade_length) (int (length girl_voice)) fade_out))))))"

section \<open>Noise\<close>






section \<open>A run of one effect\<close>




section \<open>Buffers in memory: volume\<close>

text \<open>
  Where aliasing matters an array is an address into a store that maps addresses to
  contents. \<open>increase_volume\<close> runs \<open>audio_data *= volume_factor\<close> on the array it was
  handed and returns that array.
\<close>

type_synonym 'a store = "nat \<Rightarrow> 'a list"

definition increase_volume :: "'a::times store \<Rightarrow> nat \<Rightarrow> 'a \<Rightarrow> nat \<times> 'a store" where
  "increase_volume st audio_data volume_factor =
     (audio_data, st(audio_data := map (\<lambda>x. x * volume_factor) (st audio_data)))"

section \<open>Arithmetic and a generator for examples\<close>

text \<open>
  \<open>exact_ops\<close> computes on finite floats without rounding. Float arithmetic returns the
  exact result of a product, quotient or difference whenever that result is itself a
  float, and the sine of 0 is 0: the examples below use \<open>exact_ops\<close> only on such
  numbers (small integers and fractions with a power of 2 below), where it is what
  the source computes. It is not the source's arithmetic elsewhere: it does not round,
  and an infinity, NaN or a division by 0 gives NaN. \<open>quarter_turn_ops\<close> is \<open>exact_ops\<close>
  with one more value of the sine: numpy's sine of the float \<open>np.pi / 2\<close> is the float 1.
  \<open>counting_variate\<close> is a generator whose state counts the draws made so far and whose
  \<open>n\<close>-th draw is \<open>loc + scale * n\<close>.
\<close>

definition lift2 :: "(real \<Rightarrow> real \<Rightarrow> real) \<Rightarrow> fvalue \<Rightarrow> fvalue \<Rightarrow> fvalue" where
  "lift2 f a b = (case a of Finite x \<Rightarrow> (case b of Finite y \<Rightarrow> Finite (f x y) | _ \<Rightarrow> NaN) | _ \<Rightarrow> NaN)"

definition exact_ops :: float_ops where
  "exact_ops =
     \<lparr> int_mul = (\<lambda>n t. Inr (Finite (of_int n * t))),
       fmul = lift2 (*),
       fdiv = (\<lambda>a b. if b = Finite 0 then NaN else lift2 (/) a b),
       fsub = lift2 (-),
       fsin = (\<lambda>a. case a of Finite x \<Rightarrow> Finite (sin x) | _ \<Rightarrow> NaN) \<rparr>"

definition quarter_turn_ops :: float_ops where
  "quarter_turn_ops =
     exact_ops\<lparr>fsin := (\<lambda>a. if a = Finite (np_pi / 2) then Finite 1 else fsin exact_ops a)\<rparr>"


section \<open>Properties\<close>

subsection \<open>Indexing\<close>

lemma getitem_in_range:
  "0 \<le> i \<Longrightarrow> i < int (length xs) \<Longrightarrow> getitem xs i = Inr (xs ! nat i)"
  by (simp add: getitem_def py_index_def)

lemma setitem_in_range:
  "0 \<le> i \<Longrightarrow> i < int (length xs) \<Longrightarrow> setitem xs i v = Inr (xs[nat i := v])"
  by (simp add: setitem_def py_index_def)

lemma py_range_empty: "b \<le> a \<Longrightarrow> py_range a b = []"
  by (simp add: py_range_def)

lemma py_range_step: "a < b \<Longrightarrow> py_range a b = a # py_range (a + 1) b"
  by (simp add: py_range_def upto_rec1)

lemma py_index_valid:
  "- int n \<le> i \<Longrightarrow> i < int n \<Longrightarrow> \<exists>k<n. py_index n i = Inr k"
  by (auto simp add: py_index_def)

lemma getitem_valid:
  "- int (length xs) \<le> i \<Longrightarrow> i < int (length xs) \<Longrightarrow> \<exists>x. getitem xs i = Inr x"
  using py_index_valid [of "length xs" i] by (auto simp add: getitem_def)

lemma setitem_valid:
  "- int (length xs) \<le> i \<Longrightarrow> i < int (length xs)
   \<Longrightarrow> \<exists>ys. setitem xs i v = Inr ys \<and> length ys = length xs"
  using py_index_valid [of "length xs" i] by (auto simp add: setitem_def)

lemma to_samples_finite:
  "int_mul fl sr t = Inr (Finite x) \<Longrightarrow> to_samples fl sr t = Inr (trunc_toward_zero x)"
  by (simp add: to_samples_def bind_result_def py_int_def)

lemma to_samples_exact:
  "to_samples exact_ops sr t = Inr (trunc_toward_zero (of_int sr * t))"
  by (simp add: to_samples_finite exact_ops_def)

subsection \<open>The echo loop\<close>

lemma echo_loop_run:
  assumes "0 \<le> d" and "d \<le> int k" and "length out = length audio" and "k \<le> length audio"
  shows "\<exists>out'. echo_loop audio d decay (py_range (int k) (int (length audio))) out = Inr out'
           \<and> length out' = length audio
           \<and> (\<forall>j<k. out' ! j = out ! j)
           \<and> (\<forall>j. k \<le> j \<and> j < length audio \<longrightarrow>
                  out' ! j = out ! j + decay * audio ! nat (int j - d))"
  using assms
proof (induction "length audio - k" arbitrary: k out)
  case 0
  then have "py_range (int k) (int (length audio)) = []"
    by (simp add: py_range_empty)
  with 0 show ?case by auto
next
  case (Suc m)
  from Suc.hyps(2) have lt: "k < length audio" by simp
  define v where "v = out ! k + decay * audio ! nat (int k - d)"
  define out1 where "out1 = out[k := v]"
  have range: "py_range (int k) (int (length audio)) = int k # py_range (int (Suc k)) (int (length audio))"
    using lt by (simp add: py_range_step add.commute)
  have g1: "getitem out (int k) = Inr (out ! k)"
    using lt Suc.prems(3) by (simp add: getitem_in_range)
  have g2: "getitem audio (int k - d) = Inr (audio ! nat (int k - d))"
    using lt Suc.prems(1,2) by (simp add: getitem_in_range)
  have s1: "setitem out (int k) v = Inr out1"
    using lt Suc.prems(3) by (simp add: setitem_in_range out1_def)
  have step: "echo_loop audio d decay (py_range (int k) (int (length audio))) out
        = echo_loop audio d decay (py_range (int (Suc k)) (int (length audio))) out1"
    by (simp add: range g1 g2 s1 v_def [symmetric])
  have "m = length audio - Suc k" using Suc.hyps(2) by simp
  moreover have "d \<le> int (Suc k)" using Suc.prems(2) by simp
  moreover have "length out1 = length audio" using Suc.prems(3) by (simp add: out1_def)
  moreover have "Suc k \<le> length audio" using lt by simp
  ultimately obtain out' where
    run: "echo_loop audio d decay (py_range (int (Suc k)) (int (length audio))) out1 = Inr out'"
    and len: "length out' = length audio"
    and before: "\<forall>j<Suc k. out' ! j = out1 ! j"
    and after: "\<forall>j. Suc k \<le> j \<and> j < length audio \<longrightarrow>
                  out' ! j = out1 ! j + decay * audio ! nat (int j - d)"
    using Suc.hyps(1) [of "Suc k" out1] Suc.prems(1) by blast
  have b: "\<forall>j<k. out' ! j = out ! j"
    using before by (simp add: out1_def)
  have a: "\<forall>j. k \<le> j \<and> j < length audio \<longrightarrow> out' ! j = out ! j + decay * audio ! nat (int j - d)"
  proof (intro allI impI)
    fix j assume j: "k \<le> j \<and> j < length audio"
    show "out' ! j = out ! j + decay * audio ! nat (int j - d)"
    proof (cases "j = k")
      case True
      with before lt Suc.prems(3) show ?thesis by (simp add: out1_def v_def)
    next
      case False
      with j after show ?thesis by (simp add: out1_def)
    qed
  qed
  from step run len a b show ?case by simp
qed

lemma echo_loop_samples:
  assumes "0 \<le> d"
  shows "\<exists>out. echo_loop audio d decay (py_range d (int (length audio))) audio = Inr out
           \<and> length out = length audio
           \<and> (\<forall>i<length audio. out ! i =
                  (if int i < d then audio ! i else audio ! i + decay * audio ! nat (int i - d)))"
proof (cases "d < int (length audio)")
  case False
  then have "py_range d (int (length audio)) = []" by (simp add: py_range_empty)
  with False show ?thesis by auto
next
  case True
  with assms have k: "d = int (nat d)" "nat d \<le> length audio" by simp_all
  from echo_loop_run [of d "nat d" audio audio decay] assms k(2)
  obtain out where
    run: "echo_loop audio d decay (py_range (int (nat d)) (int (length audio))) audio = Inr out"
    and len: "length out = length audio"
    and before: "\<forall>j<nat d. out ! j = audio ! j"
    and after: "\<forall>j. nat d \<le> j \<and> j < length audio \<longrightarrow>
                  out ! j = audio ! j + decay * audio ! nat (int j - d)"
    by auto
  have "\<forall>i<length audio. out ! i =
          (if int i < d then audio ! i else audio ! i + decay * audio ! nat (int i - d))"
  proof (intro allI impI)
    fix i assume i: "i < length audio"
    show "out ! i = (if int i < d then audio ! i else audio ! i + decay * audio ! nat (int i - d))"
    proof (cases "int i < d")
      case True
      then have "i < nat d" by simp
      with before True show ?thesis by simp
    next
      case False
      then have "nat d \<le> i" by simp
      with after i False show ?thesis by simp
    qed
  qed
  with run len k(1) show ?thesis by simp
qed

lemma echo_loop_negative_run:
  assumes "d < 0" and "- int (length audio) \<le> d" and "length out = length audio"
    and "d \<le> i" and "i \<le> int (length audio) + d"
  shows "echo_loop audio d decay (py_range i (int (length audio))) out = Inl IndexError"
  using assms
proof (induction "nat (int (length audio) + d - i)" arbitrary: i out)
  case 0
  then have i: "i = int (length audio) + d" by simp
  have range: "py_range i (int (length audio)) = i # py_range (i + 1) (int (length audio))"
    using i 0 by (simp add: py_range_step)
  have g1: "getitem out i = Inr (out ! nat i)"
    using i 0 by (simp add: getitem_in_range)
  have g2: "getitem audio (i - d) = Inl IndexError"
    using i by (simp add: getitem_def py_index_def)
  show ?case by (simp add: range g1 g2)
next
  case (Suc m)
  then have lt: "i < int (length audio) + d" by simp
  have range: "py_range i (int (length audio)) = i # py_range (i + 1) (int (length audio))"
    using lt Suc.prems by (simp add: py_range_step)
  have valid: "- int (length out) \<le> i" "i < int (length out)"
    using lt Suc.prems by simp_all
  obtain x where g1: "getitem out i = Inr x"
    using getitem_valid [OF valid] by blast
  obtain y where g2: "getitem audio (i - d) = Inr y"
    using getitem_valid [of audio "i - d"] lt Suc.prems by auto
  obtain out1 where s1: "setitem out i (x + decay * y) = Inr out1"
    and len1: "length out1 = length audio"
    using setitem_valid [OF valid, of "x + decay * y"] Suc.prems(3) by auto
  have "m = nat (int (length audio) + d - (i + 1))" using Suc.hyps(2) by simp
  then have "echo_loop audio d decay (py_range (i + 1) (int (length audio))) out1 = Inl IndexError"
    using Suc.hyps(1) [of "i + 1" out1] Suc.prems len1 lt by simp
  then show ?case by (simp add: range g1 g2 s1)
qed

lemma echo_loop_negative:
  assumes "d < 0"
  shows "echo_loop audio d decay (py_range d (int (length audio))) audio = Inl IndexError"
proof (cases "- int (length audio) \<le> d")
  case True
  with assms show ?thesis by (simp add: echo_loop_negative_run)
next
  case False
  then have range: "py_range d (int (length audio)) = d # py_range (d + 1) (int (length audio))"
    by (simp add: py_range_step)
  have "getitem audio d = Inl IndexError"
    using False assms by (simp add: getitem_def py_index_def)
  then show ?thesis by (simp add: range)
qed

subsection \<open>The feedback delay loop\<close>

lemma delay_loop_run:
  assumes "0 \<le> d" and "d \<le> int k" and "length out = length audio" and "k \<le> length audio"
  shows "\<exists>out'. delay_loop audio d fb (py_range (int k) (int (length audio))) out = Inr out'
           \<and> length out' = length audio
           \<and> (\<forall>j<k. out' ! j = out ! j)
           \<and> (\<forall>j. k \<le> j \<and> j < length audio \<longrightarrow>
                  out' ! j = audio ! j + fb * (if d = 0 then out ! j else out' ! nat (int j - d)))"
  using assms
proof (induction "length audio - k" arbitrary: k out)
  case 0
  then have "py_range (int k) (int (length audio)) = []"
    by (simp add: py_range_empty)
  with 0 show ?case by auto
next
  case (Suc m)
  from Suc.hyps(2) have lt: "k < length audio" by simp
  define v where "v = audio ! k + fb * out ! nat (int k - d)"
  define out1 where "out1 = out[k := v]"
  have range: "py_range (int k) (int (length audio)) = int k # py_range (int (Suc k)) (int (length audio))"
    using lt by (simp add: py_range_step add.commute)
  have g1: "getitem audio (int k) = Inr (audio ! k)"
    using lt by (simp add: getitem_in_range)
  have g2: "getitem out (int k - d) = Inr (out ! nat (int k - d))"
    using lt Suc.prems(1,2,3) by (simp add: getitem_in_range)
  have s1: "setitem out (int k) v = Inr out1"
    using lt Suc.prems(3) by (simp add: setitem_in_range out1_def)
  have step: "delay_loop audio d fb (py_range (int k) (int (length audio))) out
        = delay_loop audio d fb (py_range (int (Suc k)) (int (length audio))) out1"
    by (simp add: range g1 g2 s1 v_def [symmetric])
  have "m = length audio - Suc k" using Suc.hyps(2) by simp
  moreover have "d \<le> int (Suc k)" using Suc.prems(2) by simp
  moreover have "length out1 = length audio" using Suc.prems(3) by (simp add: out1_def)
  moreover have "Suc k \<le> length audio" using lt by simp
  ultimately obtain out' where
    run: "delay_loop audio d fb (py_range (int (Suc k)) (int (length audio))) out1 = Inr out'"
    and len: "length out' = length audio"
    and before: "\<forall>j<Suc k. out' ! j = out1 ! j"
    and after: "\<forall>j. Suc k \<le> j \<and> j < length audio \<longrightarrow>
                  out' ! j = audio ! j + fb * (if d = 0 then out1 ! j else out' ! nat (int j - d))"
    using Suc.hyps(1) [of "Suc k" out1] Suc.prems(1) by blast
  have b: "\<forall>j<k. out' ! j = out ! j"
    using before by (simp add: out1_def)
  have at_k: "out' ! k = v"
    using before lt Suc.prems(3) by (simp add: out1_def)
  have a: "\<forall>j. k \<le> j \<and> j < length audio \<longrightarrow>
             out' ! j = audio ! j + fb * (if d = 0 then out ! j else out' ! nat (int j - d))"
  proof (intro allI impI)
    fix j assume j: "k \<le> j \<and> j < length audio"
    show "out' ! j = audio ! j + fb * (if d = 0 then out ! j else out' ! nat (int j - d))"
    proof (cases "j = k")
      case True
      show ?thesis
      proof (cases "d = 0")
        case True
        with \<open>j = k\<close> at_k show ?thesis by (simp add: v_def)
      next
        case False
        with Suc.prems(1,2) have "nat (int k - d) < k" by auto
        with b have "out' ! nat (int k - d) = out ! nat (int k - d)" by simp
        with False \<open>j = k\<close> at_k show ?thesis by (simp add: v_def)
      qed
    next
      case False
      with j have "Suc k \<le> j \<and> j < length audio" by simp
      with after have "out' ! j = audio ! j + fb * (if d = 0 then out1 ! j else out' ! nat (int j - d))"
        by blast
      with False show ?thesis by (simp add: out1_def)
    qed
  qed
  from step run len a b show ?case by simp
qed

lemma delay_loop_samples:
  assumes "0 \<le> d"
  shows "\<exists>out. delay_loop audio d fb (py_range d (int (length audio)))
                  (replicate (length audio) 0) = Inr out
           \<and> length out = length audio
           \<and> (\<forall>i<length audio. out ! i =
                  (if int i < d then 0
                   else audio ! i + fb * (if d = 0 then 0 else out ! nat (int i - d))))"
proof (cases "d < int (length audio)")
  case False
  then have "py_range d (int (length audio)) = []" by (simp add: py_range_empty)
  with False show ?thesis by auto
next
  case True
  with assms have k: "d = int (nat d)" "nat d \<le> length audio" by simp_all
  from delay_loop_run [of d "nat d" "replicate (length audio) 0" audio fb] assms k(2)
  obtain out where
    run: "delay_loop audio d fb (py_range (int (nat d)) (int (length audio)))
            (replicate (length audio) 0) = Inr out"
    and len: "length out = length audio"
    and before: "\<forall>j<nat d. out ! j = replicate (length audio) 0 ! j"
    and after: "\<forall>j. nat d \<le> j \<and> j < length audio \<longrightarrow>
                  out ! j = audio ! j + fb * (if d = 0 then replicate (length audio) 0 ! j
                                              else out ! nat (int j - d))"
    by auto
  have "\<forall>i<length audio. out ! i =
          (if int i < d then 0 else audio ! i + fb * (if d = 0 then 0 else out ! nat (int i - d)))"
  proof (intro allI impI)
    fix i assume i: "i < length audio"
    show "out ! i = (if int i < d then 0
                     else audio ! i + fb * (if d = 0 then 0 else out ! nat (int i - d)))"
    proof (cases "int i < d")
      case True
      then have "i < nat d" by simp
      with before True i show ?thesis by simp
    next
      case False
      then have "nat d \<le> i" by simp
      with after i False show ?thesis by simp
    qed
  qed
  with run len k(1) show ?thesis by simp
qed

lemma delay_loop_negative_run:
  assumes "d < 0" and "- int (length audio) \<le> d" and "length out = length audio"
    and "d \<le> i" and "i \<le> int (length audio) + d"
  shows "delay_loop audio d fb (py_range i (int (length audio))) out = Inl IndexError"
  using assms
proof (induction "nat (int (length audio) + d - i)" arbitrary: i out)
  case 0
  then have i: "i = int (length audio) + d" by simp
  have range: "py_range i (int (length audio)) = i # py_range (i + 1) (int (length audio))"
    using i 0 by (simp add: py_range_step)
  have g1: "getitem audio i = Inr (audio ! nat i)"
    using i 0 by (simp add: getitem_in_range)
  have g2: "getitem out (i - d) = Inl IndexError"
    using i 0 by (simp add: getitem_def py_index_def)
  show ?case by (simp add: range g1 g2)
next
  case (Suc m)
  then have lt: "i < int (length audio) + d" by simp
  have range: "py_range i (int (length audio)) = i # py_range (i + 1) (int (length audio))"
    using lt Suc.prems by (simp add: py_range_step)
  have valid: "- int (length out) \<le> i" "i < int (length out)"
    using lt Suc.prems by simp_all
  obtain x where g1: "getitem audio i = Inr x"
    using getitem_valid [of audio i] valid Suc.prems(3) by auto
  obtain y where g2: "getitem out (i - d) = Inr y"
    using getitem_valid [of out "i - d"] lt Suc.prems by auto
  obtain out1 where s1: "setitem out i (x + fb * y) = Inr out1"
    and len1: "length out1 = length audio"
    using setitem_valid [OF valid, of "x + fb * y"] Suc.prems(3) by auto
  have "m = nat (int (length audio) + d - (i + 1))" using Suc.hyps(2) by simp
  then have "delay_loop audio d fb (py_range (i + 1) (int (length audio))) out1 = Inl IndexError"
    using Suc.hyps(1) [of "i + 1" out1] Suc.prems len1 lt by simp
  then show ?case by (simp add: range g1 g2 s1)
qed

lemma delay_loop_negative:
  assumes "d < 0" and "length out = length audio"
  shows "delay_loop audio d fb (py_range d (int (length audio))) out = Inl IndexError"
proof (cases "- int (length audio) \<le> d")
  case True
  with assms show ?thesis by (simp add: delay_loop_negative_run)
next
  case False
  then have range: "py_range d (int (length audio)) = d # py_range (d + 1) (int (length audio))"
    by (simp add: py_range_step)
  have "getitem audio d = Inl IndexError"
    using False assms by (simp add: getitem_def py_index_def)
  then show ?thesis by (simp add: range)
qed

subsection \<open>Echo and feedback delay, sample by sample\<close>

lemma apply_echo_samples:
  assumes "to_samples fl sr delay_factor = Inr d" and "0 \<le> d"
  shows "\<exists>out. apply_echo fl audio sr delay_factor decay = Inr out
           \<and> length out = length audio
           \<and> (\<forall>i<length audio. out ! i =
                  (if int i < d then audio ! i
                   else audio ! i + decay * audio ! nat (int i - d)))"
  using echo_loop_samples [OF assms(2), of audio decay]
  by (simp add: apply_echo_def assms(1) bind_result_def)

lemma apply_echo_negative:
  "to_samples fl sr delay_factor = Inr d \<Longrightarrow> d < 0
   \<Longrightarrow> apply_echo fl audio sr delay_factor decay = Inl IndexError"
  by (simp add: apply_echo_def bind_result_def echo_loop_negative)

lemma apply_echo_no_samples:
  "to_samples fl sr delay_factor = Inl e \<Longrightarrow> apply_echo fl audio sr delay_factor decay = Inl e"
  by (simp add: apply_echo_def bind_result_def)

lemma apply_strong_echo_eq:
  "apply_strong_echo fl audio sr delay_factor decay = apply_echo fl audio sr delay_factor decay"
  by (simp add: apply_strong_echo_def apply_echo_def)

lemma apply_delay_samples:
  assumes "to_samples fl sr delay_time = Inr d" and "0 \<le> d"
  shows "\<exists>out. apply_delay fl audio sr delay_time fb = Inr out
           \<and> length out = length audio
           \<and> (\<forall>i<length audio. out ! i =
                  (if int i < d then 0
                   else audio ! i + fb * (if d = 0 then 0 else out ! nat (int i - d))))"
  using delay_loop_samples [OF assms(2), of audio fb]
  by (simp add: apply_delay_def assms(1) bind_result_def)

lemma apply_delay_negative:
  "to_samples fl sr delay_time = Inr d \<Longrightarrow> d < 0
   \<Longrightarrow> apply_delay fl audio sr delay_time fb = Inl IndexError"
  by (simp add: apply_delay_def bind_result_def delay_loop_negative)

lemma apply_delay_no_samples:
  "to_samples fl sr delay_time = Inl e \<Longrightarrow> apply_delay fl audio sr delay_time fb = Inl e"
  by (simp add: apply_delay_def bind_result_def)

text \<open>
  X1: the echo is a single repeat read from the input. When
  \<open>delay_samples = int(sr * delay_factor)\<close> is not negative,
  \<open>output[i] = input[i] + decay * input[i - delay_samples]\<close> from \<open>delay_samples\<close> on and
  \<open>output[i] = input[i]\<close> before, in whatever arithmetic the samples have.
\<close>

theorem echo_single_repeat:
  assumes "to_samples fl sr delay_factor = Inr delay_samples" and "0 \<le> delay_samples"
  shows "\<exists>out. apply_echo fl audio_data sr delay_factor decay = Inr out
           \<and> length out = length audio_data
           \<and> (\<forall>i<length audio_data.
                 out ! i = (if int i < delay_samples then audio_data ! i
                            else audio_data ! i
                                 + decay * audio_data ! (i - nat delay_samples)))"
proof -
  from apply_echo_samples [OF assms, of audio_data decay]
  obtain out where run: "apply_echo fl audio_data sr delay_factor decay = Inr out"
    and len: "length out = length audio_data"
    and samples: "\<forall>i<length audio_data. out ! i =
                  (if int i < delay_samples then audio_data ! i
                   else audio_data ! i + decay * audio_data ! nat (int i - delay_samples))"
    by blast
  have "nat (int i - delay_samples) = i - nat delay_samples" for i
    using assms(2) by (simp add: nat_diff_distrib')
  with run len samples show ?thesis by simp
qed

theorem echo_single_repeat_witness:
  "to_samples exact_ops 4 (1 / 2) = Inr 2 \<and> (0 :: int) \<le> 2
   \<and> (\<exists>out. apply_echo exact_ops [1, 2, 3, 4 :: int] 4 (1 / 2) 5 = Inr out
          \<and> length out = 4 \<and> out ! 1 = 2 \<and> out ! 2 = 3 + 5 * 1 \<and> out ! 3 = 4 + 5 * 2)"
proof -
  have d: "to_samples exact_ops 4 (1 / 2) = Inr 2"
    by (simp add: to_samples_exact trunc_toward_zero_def)
  from echo_single_repeat [OF d, of "[1, 2, 3, 4 :: int]" 5]
  obtain out where run: "apply_echo exact_ops [1, 2, 3, 4 :: int] 4 (1 / 2) 5 = Inr out"
    and len: "length out = 4"
    and samples: "\<forall>i<4. out ! i = (if int i < 2 then [1, 2, 3, 4] ! i
                            else [1, 2, 3, 4] ! i + 5 * [1, 2, 3, 4] ! (i - 2))"
    by auto
  have "out ! 1 = 2"
    using samples [rule_format, of 1] by simp
  moreover have "out ! 2 = 3 + 5 * 1"
    using samples [rule_format, of 2] by simp
  moreover have "out ! 3 = 4 + 5 * 2"
    using samples [rule_format, of 3] by simp
  ultimately show ?thesis using run len d by simp
qed

text \<open>
  X2: a negative \<open>delay_samples\<close> makes the loops of echo, strong echo and delay start
  at a negative index and run into the end of the buffer: they raise IndexError.
\<close>

theorem negative_delay_raises:
  assumes "to_samples fl sr t = Inr delay_samples" and "delay_samples < 0"
  shows "apply_echo fl audio_data sr t g = Inl IndexError
         \<and> apply_strong_echo fl audio_data sr t g = Inl IndexError
         \<and> apply_delay fl audio_data sr t g = Inl IndexError"
  using assms by (simp add: apply_echo_negative apply_delay_negative apply_strong_echo_eq)

theorem negative_delay_raises_witness:
  "to_samples exact_ops 4 (- (1 / 2)) = Inr (- 2) \<and> (- 2 :: int) < 0
   \<and> apply_echo exact_ops [1, 2, 3 :: int] 4 (- (1 / 2)) 2 = Inl IndexError
   \<and> apply_delay exact_ops [1, 2, 3 :: int] 4 (- (1 / 2)) 2 = Inl IndexError"
proof -
  have d: "to_samples exact_ops 4 (- (1 / 2)) = Inr (- 2)"
    by (simp add: to_samples_exact trunc_toward_zero_def)
  from negative_delay_raises [OF d, of "[1, 2, 3 :: int]" 2] d show ?thesis by simp
qed

text \<open>
  C10 does not hold as stated: it promises an output for every \<open>delay_factor\<close>. On
  the buffer \<open>[1, 2, 3]\<close> with \<open>sr = 4\<close>, \<open>delay_factor = -0.5\<close> and \<open>decay = 2\<close> the source
  computes \<open>delay_samples = int(-2.0) = -2\<close>, the loop runs \<open>i\<close> from \<open>-2\<close> and at \<open>i = 1\<close>
  reads \<open>audio_data[3]\<close>: IndexError, and no output.
\<close>

theorem echo_negative_delay_counterexample:
  "to_samples exact_ops 4 (- (1 / 2)) = Inr (- 2)
   \<and> apply_echo exact_ops [1, 2, 3 :: real] 4 (- (1 / 2)) 2 = Inl IndexError"
proof -
  have d: "to_samples exact_ops 4 (- (1 / 2)) = Inr (- 2)"
    by (simp add: to_samples_exact trunc_toward_zero_def)
  then have "apply_echo exact_ops [1, 2, 3 :: real] 4 (- (1 / 2)) 2 = Inl IndexError"
    by (rule apply_echo_negative) simp
  with d show ?thesis by simp
qed

text \<open>
  C10 as amended: whenever \<open>delay_samples = int(sr * delay_factor)\<close> is not negative,
  \<open>apply_echo\<close> returns a buffer of the input's length whose samples before
  \<open>delay_samples\<close> are the input's; when \<open>delay_samples\<close> is at least the buffer's
  length the output is the input, sample for sample.
\<close>

theorem echo_keeps_leading_samples:
  assumes "to_samples fl sr delay_factor = Inr delay_samples" and "0 \<le> delay_samples"
  shows "\<exists>out. apply_echo fl audio_data sr delay_factor decay = Inr out
           \<and> length out = length audio_data
           \<and> (\<forall>i<length audio_data. int i < delay_samples \<longrightarrow> out ! i = audio_data ! i)
           \<and> (int (length audio_data) \<le> delay_samples \<longrightarrow> out = audio_data)"
proof -
  from apply_echo_samples [OF assms, of audio_data decay]
  obtain out where run: "apply_echo fl audio_data sr delay_factor decay = Inr out"
    and len: "length out = length audio_data"
    and samples: "\<forall>i<length audio_data. out ! i =
                  (if int i < delay_samples then audio_data ! i
                   else audio_data ! i + decay * audio_data ! nat (int i - delay_samples))"
    by blast
  have lead: "\<forall>i<length audio_data. int i < delay_samples \<longrightarrow> out ! i = audio_data ! i"
    using samples by simp
  have "out = audio_data" if "int (length audio_data) \<le> delay_samples"
  proof (rule nth_equalityI)
    show "length out = length audio_data" by (rule len)
  next
    fix i assume "i < length out"
    with len that have "i < length audio_data" "int i < delay_samples" by simp_all
    with lead show "out ! i = audio_data ! i" by simp
  qed
  with run len lead show ?thesis by blast
qed

theorem echo_keeps_leading_samples_witness:
  "to_samples exact_ops 4 (1 / 2) = Inr 2 \<and> (0 :: int) \<le> 2
   \<and> (\<exists>out. apply_echo exact_ops [1, 2, 3 :: int] 4 (1 / 2) 5 = Inr out
          \<and> length out = 3 \<and> out ! 0 = 1 \<and> out ! 1 = 2)
   \<and> to_samples exact_ops 4 (5 / 4) = Inr 5 \<and> (0 :: int) \<le> 5
   \<and> (\<exists>out. apply_echo exact_ops [1, 2, 3 :: int] 4 (5 / 4) 5 = Inr out \<and> out = [1, 2, 3])"
proof -
  have d: "to_samples exact_ops 4 (1 / 2) = Inr 2" "to_samples exact_ops 4 (5 / 4) = Inr 5"
    by (simp_all add: to_samples_exact trunc_toward_zero_def)
  from echo_keeps_leading_samples [OF d(1), of "[1, 2, 3 :: int]" 5]
  obtain out where "apply_echo exact_ops [1, 2, 3 :: int] 4 (1 / 2) 5 = Inr out" "length out = 3"
    "\<forall>i<3. int i < 2 \<longrightarrow> out ! i = [1, 2, 3] ! i"
    by auto
  moreover from this(3) have "out ! 0 = 1" "out ! 1 = 2" by simp_all
  moreover from echo_keeps_leading_samples [OF d(2), of "[1, 2, 3 :: int]" 5]
  have "\<exists>out. apply_echo exact_ops [1, 2, 3 :: int] 4 (5 / 4) 5 = Inr out \<and> out = [1, 2, 3]"
    by auto
  ultimately show ?thesis using d by auto
qed

subsection \<open>Feedback delay: the recurrence\<close>

text \<open>
  C2 does not hold as stated. At the buffer \<open>[1, 2, 3]\<close>, \<open>sr = 4\<close>,
  \<open>delay_time = 0.4375\<close>, \<open>feedback = 0.5\<close> the product is 1.75 and the source computes
  \<open>delay_samples = int(1.75) = 1\<close> where rounding gives 2; it returns \<open>[0, 2, 4]\<close>:
  sample 0, before the delay, is 0 and not the input's 1, and sample 2 is
  \<open>3 + 0.5 * output[1]\<close>, not \<open>3 + 0.5 * output[0]\<close>.
\<close>

theorem apply_delay_counterexample:
  "apply_delay exact_ops [1, 2, 3 :: real] 4 (7 / 16) (1 / 2) = Inr [0, 2, 4]
   \<and> to_samples exact_ops 4 (7 / 16) = Inr 1
   \<and> round (7 / 16 * of_int 4 :: real) = 2
   \<and> [0, 2, 4 :: real] ! 0 \<noteq> [1, 2, 3] ! 0
   \<and> [0, 2, 4 :: real] ! 2 \<noteq> [1, 2, 3] ! 2 + 1 / 2 * [0, 2, 4] ! (2 - 2)"
proof -
  have d: "to_samples exact_ops 4 (7 / 16) = Inr 1"
    by (simp add: to_samples_exact trunc_toward_zero_def)
  have "apply_delay exact_ops [1, 2, 3 :: real] 4 (7 / 16) (1 / 2) = Inr [0, 2, 4]"
    by (simp add: apply_delay_def d bind_result_def py_range_def upto.simps getitem_def
        setitem_def py_index_def)
  moreover have "round (7 / 16 * of_int 4 :: real) = 2"
    by (simp add: round_def)
  ultimately show ?thesis using d by simp
qed

text \<open>
  C2 as amended: whenever \<open>delay_samples = int(sr * delay_time)\<close> (the float product,
  truncated toward zero) is not negative, \<open>apply_delay\<close> returns a buffer of the input's
  length; its samples before \<open>delay_samples\<close> are 0; from \<open>delay_samples\<close> on,
  \<open>output[i] = input[i] + feedback * output[i - delay_samples]\<close> when
  \<open>delay_samples \<ge> 1\<close>, and \<open>output[i] = input[i] + feedback * 0\<close> when
  \<open>delay_samples = 0\<close> (the loop reads the zero it is about to overwrite).
\<close>

theorem apply_delay_recurrence:
  assumes "to_samples fl sr delay_time = Inr delay_samples" and "0 \<le> delay_samples"
  shows "\<exists>out. apply_delay fl audio_data sr delay_time feedback = Inr out
           \<and> length out = length audio_data
           \<and> (\<forall>i<length audio_data.
                 if int i < delay_samples then out ! i = 0
                 else if delay_samples = 0 then out ! i = audio_data ! i + feedback * 0
                 else out ! i = audio_data ! i + feedback * out ! (i - nat delay_samples))"
proof -
  from apply_delay_samples [OF assms, of audio_data feedback]
  obtain out where run: "apply_delay fl audio_data sr delay_time feedback = Inr out"
    and len: "length out = length audio_data"
    and samples: "\<forall>i<length audio_data. out ! i =
                  (if int i < delay_samples then 0
                   else audio_data ! i + feedback * (if delay_samples = 0 then 0
                          else out ! nat (int i - delay_samples)))"
    by blast
  have "if int i < delay_samples then out ! i = 0
        else if delay_samples = 0 then out ! i = audio_data ! i + feedback * 0
        else out ! i = audio_data ! i + feedback * out ! (i - nat delay_samples)"
    if "i < length audio_data" for i
  proof -
    have "nat (int i - delay_samples) = i - nat delay_samples"
      using assms(2) by (simp add: nat_diff_distrib')
    with samples that show ?thesis by simp
  qed
  with run len show ?thesis by blast
qed

theorem apply_delay_recurrence_witness:
  "to_samples exact_ops 4 (7 / 16) = Inr 1 \<and> (0 :: int) \<le> 1
   \<and> (\<exists>out. apply_delay exact_ops [1, 2, 3 :: real] 4 (7 / 16) (1 / 2) = Inr out
          \<and> length out = 3 \<and> out ! 0 = 0 \<and> out ! 1 = 2 + 1 / 2 * out ! 0
          \<and> out ! 2 = 3 + 1 / 2 * out ! 1)"
proof -
  have d: "to_samples exact_ops 4 (7 / 16) = Inr 1"
    by (simp add: to_samples_exact trunc_toward_zero_def)
  from apply_delay_recurrence [OF d, of "[1, 2, 3 :: real]" "1 / 2"]
  obtain out where run: "apply_delay exact_ops [1, 2, 3 :: real] 4 (7 / 16) (1 / 2) = Inr out"
    and len: "length out = 3"
    and samples: "\<forall>i<3. if int i < 1 then out ! i = 0
                    else out ! i = [1, 2, 3] ! i + 1 / 2 * out ! (i - 1)"
    by auto
  have "out ! 0 = 0"
    using samples [rule_format, of 0] by simp
  moreover have "out ! 1 = 2 + 1 / 2 * out ! 0"
    using samples [rule_format, of 1] by simp
  moreover have "out ! 2 = 3 + 1 / 2 * out ! 1"
    using samples [rule_format, of 2] by simp
  ultimately show ?thesis using run len d by simp
qed

subsection \<open>Feedback delay: a bound in exact arithmetic\<close>

text \<open>
  When the samples and the feedback are real numbers and sums and products are exact,
  a delay of at least one sample and \<open>|f| < 1\<close> keep every output sample within
  \<open>max |b[i]| / (1 - |f|)\<close>. This says nothing of the rounded sums and products of
  floats, which can pass that number in the last digit and overflow near the largest
  float: C3, a bound on what the floats of the source give, is not settled here.
\<close>

lemma feedback_bound_step:
  fixes M f :: real
  assumes "\<bar>f\<bar> < 1"
  shows "M + \<bar>f\<bar> * (M / (1 - \<bar>f\<bar>)) = M / (1 - \<bar>f\<bar>)"
proof -
  from assms have "1 - \<bar>f\<bar> \<noteq> 0" by simp
  then show ?thesis by (simp add: field_simps)
qed

lemma delay_bound_exact_arithmetic:
  fixes b :: "real list" and f :: real
  assumes "to_samples fl sr delay_time = Inr d" and "1 \<le> d" and "\<bar>f\<bar> < 1"
  shows "\<exists>out. apply_delay fl b sr delay_time f = Inr out
           \<and> length out = length b
           \<and> (\<forall>y\<in>set out. \<bar>y\<bar> \<le> Max (abs ` set b) / (1 - \<bar>f\<bar>))"
proof -
  define M where "M = Max (abs ` set b)"
  define B where "B = M / (1 - \<bar>f\<bar>)"
  from assms(2) have d: "0 \<le> d" "d \<noteq> 0" by simp_all
  from apply_delay_samples [OF assms(1) d(1), of b f] d(2)
  obtain out where run: "apply_delay fl b sr delay_time f = Inr out"
    and len: "length out = length b"
    and samples: "\<forall>i<length b. out ! i =
                  (if int i < d then 0 else b ! i + f * out ! nat (int i - d))"
    by auto
  have M: "\<bar>b ! i\<bar> \<le> M" if "i < length b" for i
    unfolding M_def using that by (intro Max_ge) auto
  have bound: "\<bar>out ! i\<bar> \<le> B" if "i < length b" for i
    using that
  proof (induction i rule: less_induct)
    case (less i)
    from less.prems M have M0: "0 \<le> M" by (meson abs_ge_zero order_trans)
    with assms(3) have B0: "0 \<le> B" by (simp add: B_def)
    show ?case
    proof (cases "int i < d")
      case True
      with samples less.prems B0 show ?thesis by simp
    next
      case False
      define j where "j = nat (int i - d)"
      from False assms(2) have j: "j < i" by (simp add: j_def)
      with less.prems have "j < length b" by simp
      with less.IH j have prev: "\<bar>out ! j\<bar> \<le> B" by simp
      from samples less.prems False have "out ! i = b ! i + f * out ! j"
        by (simp add: j_def)
      then have "\<bar>out ! i\<bar> \<le> \<bar>b ! i\<bar> + \<bar>f\<bar> * \<bar>out ! j\<bar>"
        by (metis abs_mult abs_triangle_ineq)
      also have "\<dots> \<le> M + \<bar>f\<bar> * B"
        using M [OF less.prems] prev by (intro add_mono mult_left_mono) simp_all
      also have "\<dots> = B"
        unfolding B_def using assms(3) by (rule feedback_bound_step)
      finally show ?thesis .
    qed
  qed
  have "\<forall>y\<in>set out. \<bar>y\<bar> \<le> B"
    using bound len by (auto simp add: in_set_conv_nth)
  with run len show ?thesis unfolding B_def M_def by blast
qed

subsection \<open>Chorus\<close>

lemma chorus_loop_samples:
  assumes "distinct idxs" and "\<forall>i\<in>set idxs. i < length out"
    and "\<forall>i\<in>set idxs. fsub fl (Finite (real i)) (m i) = Finite (x i)"
  shows "\<exists>out'. chorus_loop fl audio m idxs out = Inr out'
         \<and> length out' = length out
         \<and> (\<forall>j<length out. out' ! j =
               (if j \<in> set idxs \<and> 0 \<le> trunc_toward_zero (x j)
                     \<and> trunc_toward_zero (x j) < int (length audio)
                then out ! j + audio ! nat (trunc_toward_zero (x j))
                else out ! j))"
  using assms
proof (induction idxs arbitrary: out)
  case Nil
  then show ?case by simp
next
  case (Cons i rest)
  define r where "r = trunc_toward_zero (x i)"
  define out1 where "out1 =
    (if 0 \<le> r \<and> r < int (length audio) then out[i := out ! i + audio ! nat r] else out)"
  from Cons.prems(3) have "py_int (fsub fl (Finite (real i)) (m i)) = Inr r"
    by (simp add: py_int_def r_def)
  then have step: "chorus_loop fl audio m (i # rest) out = chorus_loop fl audio m rest out1"
    by (simp add: out1_def)
  have len1: "length out1 = length out" by (simp add: out1_def)
  from Cons.prems have rest: "distinct rest" "\<forall>k\<in>set rest. k < length out1"
    "\<forall>k\<in>set rest. fsub fl (Finite (real k)) (m k) = Finite (x k)"
    and i: "i \<notin> set rest" "i < length out"
    by (simp_all add: len1)
  from Cons.IH [OF rest] obtain out' where
    run: "chorus_loop fl audio m rest out1 = Inr out'"
    and len: "length out' = length out1"
    and samples: "\<forall>j<length out1. out' ! j =
               (if j \<in> set rest \<and> 0 \<le> trunc_toward_zero (x j)
                     \<and> trunc_toward_zero (x j) < int (length audio)
                then out1 ! j + audio ! nat (trunc_toward_zero (x j))
                else out1 ! j)"
    by blast
  have "out' ! j =
               (if j \<in> set (i # rest) \<and> 0 \<le> trunc_toward_zero (x j)
                     \<and> trunc_toward_zero (x j) < int (length audio)
                then out ! j + audio ! nat (trunc_toward_zero (x j))
                else out ! j)" if "j < length out" for j
  proof (cases "j = i")
    case True
    with samples that i len1 show ?thesis by (simp add: out1_def r_def)
  next
    case False
    then have "out1 ! j = out ! j" by (simp add: out1_def)
    with samples that len1 False show ?thesis by simp
  qed
  with step run len len1 show ?case by simp
qed

text \<open>
  C8: with \<open>m[i] = sin(2 * pi * rate * i / sample_rate) * (depth * sample_rate)\<close> in the
  floats of the source, whenever \<open>depth * sample_rate\<close> is computed and every
  \<open>i - m[i]\<close> is a finite float \<open>x i\<close>, \<open>apply_chorus\<close> returns a buffer of the input's
  length with \<open>output[i] = input[i] + input[read_offset]\<close> when the read offset lies in
  \<open>[0, length)\<close> and \<open>output[i] = input[i]\<close> otherwise, the read offset being \<open>x i\<close>
  truncated toward zero.
\<close>

theorem chorus_output:
  assumes "int_mul fl sr depth = Inr scale"
    and "\<forall>i<length audio_data.
           fsub fl (Finite (real i)) (chorus_modulator fl sr rate scale i) = Finite (x i)"
  shows "\<exists>out. apply_chorus fl audio_data sr depth delay rate = Inr out
           \<and> length out = length audio_data
           \<and> (\<forall>i<length audio_data.
                 out ! i =
                   (let read_offset = trunc_toward_zero (x i)
                    in if 0 \<le> read_offset \<and> read_offset < int (length audio_data)
                       then audio_data ! i + audio_data ! nat read_offset
                       else audio_data ! i))"
proof -
  have run: "apply_chorus fl audio_data sr depth delay rate
      = chorus_loop fl audio_data (chorus_modulator fl sr rate scale)
          [0..<length audio_data] audio_data"
    by (simp add: apply_chorus_def assms(1) bind_result_def)
  from chorus_loop_samples [of "[0..<length audio_data]" audio_data fl
      "chorus_modulator fl sr rate scale" x audio_data] assms(2)
  show ?thesis unfolding run by (simp add: Let_def)
qed

lemma chorus_modulator_rate_zero:
  "chorus_modulator exact_ops 4 0 (Finite 4) i = Finite 0"
  by (simp add: chorus_modulator_def exact_ops_def lift2_def)

lemma chorus_modulator_quarter_turn:
  "chorus_modulator quarter_turn_ops 4 1 (Finite 4) 0 = Finite 0"
  "chorus_modulator quarter_turn_ops 4 1 (Finite 4) 1 = Finite 4"
proof -
  have "np_pi \<noteq> 0" by (simp add: np_pi_def)
  then show "chorus_modulator quarter_turn_ops 4 1 (Finite 4) 0 = Finite 0"
    by (simp add: chorus_modulator_def quarter_turn_ops_def exact_ops_def lift2_def)
  show "chorus_modulator quarter_turn_ops 4 1 (Finite 4) 1 = Finite 4"
    by (simp add: chorus_modulator_def quarter_turn_ops_def exact_ops_def lift2_def)
qed

theorem chorus_output_witness:
  "int_mul exact_ops 4 1 = Inr (Finite 4)
   \<and> fsub exact_ops (Finite (real (0 :: nat))) (chorus_modulator exact_ops 4 0 (Finite 4) 0)
       = Finite 0
   \<and> fsub exact_ops (Finite (real (1 :: nat))) (chorus_modulator exact_ops 4 0 (Finite 4) 1)
       = Finite 1
   \<and> (\<exists>out. apply_chorus exact_ops [1, 2 :: int] 4 1 (4 / 1000) 0 = Inr out
          \<and> length out = 2 \<and> out ! 0 = 1 + 1 \<and> out ! 1 = 2 + 2)
   \<and> int_mul quarter_turn_ops 4 1 = Inr (Finite 4)
   \<and> fsub quarter_turn_ops (Finite (real (0 :: nat)))
         (chorus_modulator quarter_turn_ops 4 1 (Finite 4) 0) = Finite 0
   \<and> fsub quarter_turn_ops (Finite (real (1 :: nat)))
         (chorus_modulator quarter_turn_ops 4 1 (Finite 4) 1) = Finite (- 3)
   \<and> (\<exists>out. apply_chorus quarter_turn_ops [1, 2 :: int] 4 1 (4 / 1000) 1 = Inr out
          \<and> length out = 2 \<and> out ! 0 = 1 + 1 \<and> out ! 1 = 2)"
proof -
  have scale: "int_mul exact_ops 4 1 = Inr (Finite 4)"
    by (simp add: exact_ops_def)
  have x: "fsub exact_ops (Finite (real i)) (chorus_modulator exact_ops 4 0 (Finite 4) i)
      = Finite (real i)" for i
    by (simp add: chorus_modulator_rate_zero) (simp add: exact_ops_def lift2_def)
  then have all: "\<forall>i<length [1, 2 :: int].
      fsub exact_ops (Finite (real i)) (chorus_modulator exact_ops 4 0 (Finite 4) i)
        = Finite (real i)"
    by simp
  from chorus_output [OF scale all, of "4 / 1000"]
  obtain out where run: "apply_chorus exact_ops [1, 2 :: int] 4 1 (4 / 1000) 0 = Inr out"
    and len: "length out = 2"
    and samples: "\<forall>i<2. out ! i =
                   (let read_offset = trunc_toward_zero (real i)
                    in if 0 \<le> read_offset \<and> read_offset < 2
                       then [1, 2] ! i + [1, 2] ! nat read_offset
                       else [1, 2] ! i)"
    by auto
  have "out ! 0 = 1 + 1"
    using samples [rule_format, of 0] by (simp add: trunc_toward_zero_def)
  moreover have "out ! 1 = 2 + 2"
    using samples [rule_format, of 1] by (simp add: trunc_toward_zero_def)
  ultimately have first: "\<exists>out. apply_chorus exact_ops [1, 2 :: int] 4 1 (4 / 1000) 0 = Inr out
          \<and> length out = 2 \<and> out ! 0 = 1 + 1 \<and> out ! 1 = 2 + 2"
    using run len by simp
  have scale': "int_mul quarter_turn_ops 4 1 = Inr (Finite 4)"
    by (simp add: quarter_turn_ops_def exact_ops_def)
  have "fsub quarter_turn_ops (Finite (real (0 :: nat))) (Finite 0) = Finite 0"
    "fsub quarter_turn_ops (Finite (real (1 :: nat))) (Finite 4) = Finite (- 3)"
    by (simp_all add: quarter_turn_ops_def exact_ops_def lift2_def)
  then have y0: "fsub quarter_turn_ops (Finite (real (0 :: nat)))
         (chorus_modulator quarter_turn_ops 4 1 (Finite 4) 0) = Finite 0"
    and y1: "fsub quarter_turn_ops (Finite (real (1 :: nat)))
         (chorus_modulator quarter_turn_ops 4 1 (Finite 4) 1) = Finite (- 3)"
    by (simp_all only: chorus_modulator_quarter_turn)
  have all': "\<forall>i<length [1, 2 :: int].
      fsub quarter_turn_ops (Finite (real i)) (chorus_modulator quarter_turn_ops 4 1 (Finite 4) i)
        = Finite (if i = 0 then 0 else - 3)"
  proof (intro allI impI)
    fix i :: nat assume "i < length [1, 2 :: int]"
    then have "i = 0 \<or> i = 1" by auto
    with y0 y1 show "fsub quarter_turn_ops (Finite (real i))
        (chorus_modulator quarter_turn_ops 4 1 (Finite 4) i) = Finite (if i = 0 then 0 else - 3)"
      by auto
  qed
  from chorus_output [OF scale' all', of "4 / 1000"]
  obtain out' where run': "apply_chorus quarter_turn_ops [1, 2 :: int] 4 1 (4 / 1000) 1 = Inr out'"
    and len': "length out' = 2"
    and samples': "\<forall>i<2. out' ! i =
                   (let read_offset = trunc_toward_zero (if i = 0 then 0 else - 3)
                    in if 0 \<le> read_offset \<and> read_offset < 2
                       then [1, 2] ! i + [1, 2] ! nat read_offset
                       else [1, 2] ! i)"
    by auto
  have "out' ! 0 = 1 + 1"
    using samples' [rule_format, of 0] by (simp add: trunc_toward_zero_def)
  moreover have "out' ! 1 = 2"
    using samples' [rule_format, of 1] by (simp add: trunc_toward_zero_def)
  ultimately have second: "\<exists>out. apply_chorus quarter_turn_ops [1, 2 :: int] 4 1 (4 / 1000) 1 = Inr out
          \<and> length out = 2 \<and> out ! 0 = 1 + 1 \<and> out ! 1 = 2"
    using run' len' by simp
  from first second scale scale' x [of 0] x [of 1] y0 y1 show ?thesis by simp
qed

subsection \<open>Stutter\<close>

lemma py_slice_nat:
  "py_slice xs (int i) (int i + int k) = take k (drop i xs)"
proof -
  have "nat (int i + int k) = i + k" by (simp add: nat_add_distrib)
  then have "py_slice xs (int i) (int i + int k)
      = take (min (length xs) (i + k) - min (length xs) i) (drop (min (length xs) i) xs)"
    by (simp add: py_slice_def slice_index_def Let_def)
  also have "\<dots> = take k (drop i xs)"
  proof (cases "i \<le> length xs")
    case True
    then have "min (length xs) i = i" by simp
    moreover have "take (min (length xs) (i + k) - i) (drop i xs) = take k (drop i xs)"
      using True by (cases "i + k \<le> length xs") (simp_all add: min_def)
    ultimately show ?thesis by simp
  next
    case False
    then show ?thesis by simp
  qed
  finally show ?thesis .
qed

lemma trunc_half: "trunc_toward_zero (real S / 2) = int (S div 2)"
proof -
  have "\<lfloor>real_of_int (int S) / real_of_int 2\<rfloor> = int S div 2"
    by (rule floor_divide_of_int_eq)
  then show ?thesis by (simp add: trunc_toward_zero_def zdiv_int)
qed

lemma stutter_loop_run:
  assumes "0 < S"
  shows "stutter_loop audio (int S) (range_from (int i) (int (length audio)) (int S)) acc
           = acc @ spec_stutter S (drop i audio)"
proof (induction "length audio - i" arbitrary: i acc rule: less_induct)
  case less
  show ?case
  proof (cases "i < length audio")
    case False
    then have "range_from (int i) (int (length audio)) (int S) = []"
      by (simp add: range_from.simps)
    moreover from False have "spec_stutter S (drop i audio) = []"
      by (simp add: spec_stutter_def segments.simps)
    ultimately show ?thesis by simp
  next
    case True
    with assms have range: "range_from (int i) (int (length audio)) (int S)
        = int i # range_from (int (i + S)) (int (length audio)) (int S)"
      by (subst range_from.simps) simp
    from True assms have segs: "segments S (drop i audio)
        = take S (drop i audio) # segments S (drop (i + S) audio)"
      by (subst segments.simps) (simp add: add.commute)
    from True assms have "length audio - (i + S) < length audio - i" by simp
    from less [OF this]
    have "stutter_loop audio (int S) (range_from (int (i + S)) (int (length audio)) (int S))
            (acc @ take S (drop i audio) @ take (S div 2) (drop i audio))
          = (acc @ take S (drop i audio) @ take (S div 2) (drop i audio))
            @ spec_stutter S (drop (i + S) audio)" .
    moreover have "take (S div 2) (take S (drop i audio)) = take (S div 2) (drop i audio)"
      by (simp add: min_def)
    ultimately show ?thesis
      by (simp add: range segs spec_stutter_def py_slice_nat trunc_half)
  qed
qed

lemma concat_segments:
  assumes "0 < S"
  shows "concat (segments S xs) = xs"
proof (induction "length xs" arbitrary: xs rule: less_induct)
  case less
  show ?case
  proof (cases "xs = []")
    case True
    then show ?thesis by (simp add: segments.simps)
  next
    case False
    with assms have "length (drop S xs) < length xs" by simp
    from less [OF this] have "concat (segments S (drop S xs)) = drop S xs" .
    with False assms show ?thesis by (subst segments.simps) simp
  qed
qed

lemma length_spec_stutter:
  assumes "0 < S"
  shows "length (spec_stutter S xs)
           = (length xs div S) * (S + S div 2)
             + (length xs mod S + min (length xs mod S) (S div 2))"
proof (induction "length xs" arbitrary: xs rule: less_induct)
  case less
  show ?case
  proof (cases "xs = []")
    case True
    then show ?thesis by (simp add: spec_stutter_def segments.simps)
  next
    case False
    with assms have shorter: "length (drop S xs) < length xs" by simp
    have unfold: "spec_stutter S xs
        = take S xs @ take (S div 2) (take S xs) @ spec_stutter S (drop S xs)"
      using False assms unfolding spec_stutter_def by (subst segments.simps) simp
    show ?thesis
    proof (cases "S \<le> length xs")
      case True
      from less [OF shorter]
      have IH: "length (spec_stutter S (drop S xs))
           = ((length xs - S) div S) * (S + S div 2)
             + ((length xs - S) mod S + min ((length xs - S) mod S) (S div 2))"
        by simp
      from True assms have d: "(length xs - S) div S = length xs div S - 1"
        by (simp add: le_div_geq)
      from True have m: "(length xs - S) mod S = length xs mod S"
        by (simp add: le_mod_geq)
      from True assms have q: "1 \<le> length xs div S"
        by (simp add: le_div_geq)
      have l1: "length (take S xs) = S"
        using True by simp
      have "S div 2 \<le> length xs" using True by simp
      then have l2: "length (take (S div 2) (take S xs)) = S div 2"
        by simp
      have len: "length (spec_stutter S xs)
            = S + S div 2 + ((length xs div S - 1) * (S + S div 2)
                + (length xs mod S + min (length xs mod S) (S div 2)))"
        unfolding unfold length_append l1 l2 IH d m by simp
      obtain q' where q': "length xs div S = Suc q'"
        using q by (cases "length xs div S") simp_all
      show ?thesis unfolding len q' by simp
    next
      case short: False
      then have "drop S xs = []" by simp
      then have "spec_stutter S (drop S xs) = []"
        by (simp add: spec_stutter_def segments.simps)
      moreover from short have "length xs div S = 0" "length xs mod S = length xs"
        by simp_all
      moreover from short have "take S xs = xs" by simp
      ultimately show ?thesis
        by (simp add: unfold min.commute)
    qed
  qed
qed

lemma apply_stuttering_voice_run:
  assumes "to_samples fl sr stutter_factor = Inr S" and "0 < S"
  shows "apply_stuttering_voice fl audio_data sr stutter_factor
           = Inr (spec_stutter (nat S) audio_data)"
proof -
  define S' where "S' = nat S"
  from assms(2) have S: "0 < S'" "S = int S'"
    by (simp_all add: S'_def)
  have "apply_stuttering_voice fl audio_data sr stutter_factor
      = Inr (stutter_loop audio_data (int S')
               (range_from (int 0) (int (length audio_data)) (int S')) [])"
    using S by (simp add: apply_stuttering_voice_def assms(1) py_range_step_def bind_result_def)
  also have "\<dots> = Inr (spec_stutter S' audio_data)"
    using stutter_loop_run [OF S(1), of audio_data 0 "[]"] by simp
  finally show ?thesis unfolding S'_def .
qed

lemma apply_stuttering_voice_zero:
  "to_samples fl sr stutter_factor = Inr 0
   \<Longrightarrow> apply_stuttering_voice fl audio_data sr stutter_factor = Inl ValueError"
  by (simp add: apply_stuttering_voice_def py_range_step_def bind_result_def)

lemma apply_stuttering_voice_negative:
  "to_samples fl sr stutter_factor = Inr S \<Longrightarrow> S < 0
   \<Longrightarrow> apply_stuttering_voice fl audio_data sr stutter_factor = Inr []"
  by (simp add: apply_stuttering_voice_def py_range_step_def bind_result_def range_from.simps)

text \<open>
  C4 fails on \<open>apply_stuttering_voice\<close>: on the one-sample buffer \<open>[1]\<close> with \<open>sr = 4\<close> and
  \<open>stutter_factor = 0.125\<close> (a well-formed buffer, a positive rate, a non-negative
  factor) the segment length is \<open>int(0.5) = 0\<close> and \<open>range(0, 1, 0)\<close> raises ValueError,
  where the claim promises a buffer.
\<close>

theorem stutter_zero_segment_raises:
  "to_samples exact_ops 4 (1 / 8) = Inr 0
   \<and> apply_stuttering_voice exact_ops [1 :: real] 4 (1 / 8) = Inl ValueError"
proof -
  have S: "to_samples exact_ops 4 (1 / 8) = Inr 0"
    by (simp add: to_samples_exact trunc_toward_zero_def)
  then have "apply_stuttering_voice exact_ops [1 :: real] 4 (1 / 8) = Inl ValueError"
    by (rule apply_stuttering_voice_zero)
  with S show ?thesis by simp
qed

text \<open>
  C6 does not hold as stated: the segment length of the source is
  \<open>int(sr * stutter_factor)\<close>, not the rounded product. At a buffer of 4 samples,
  \<open>sr = 4\<close>, \<open>stutter_factor = 0.4375\<close> the product is 1.75: rounding gives \<open>S = 2\<close> (even,
  at most 4) and the claimed length \<open>2 * 3 = 6\<close>, while the source cuts segments of
  \<open>int(1.75) = 1\<close> sample, each followed by its first \<open>int(0.5) = 0\<close> samples, and returns
  the 4 input samples.
\<close>

theorem stutter_counterexample:
  "spec_segment_samples 4 (7 / 16) = 2
   \<and> to_samples exact_ops 4 (7 / 16) = Inr 1
   \<and> apply_stuttering_voice exact_ops [1, 2, 3, 4 :: int] 4 (7 / 16) = Inr [1, 2, 3, 4]
   \<and> length [1, 2, 3, 4 :: int]
       \<noteq> (4 div 2) * (2 + 2 div 2) + (4 mod 2 + min (4 mod 2) (2 div 2))"
proof -
  have "spec_segment_samples 4 (7 / 16) = 2"
    by (simp add: spec_segment_samples_def round_def)
  moreover have S: "to_samples exact_ops 4 (7 / 16) = Inr 1"
    by (simp add: to_samples_exact trunc_toward_zero_def)
  moreover have "apply_stuttering_voice exact_ops [1, 2, 3, 4 :: int] 4 (7 / 16) = Inr [1, 2, 3, 4]"
    by (simp add: apply_stuttering_voice_def S bind_result_def py_range_step_def
        range_from.simps py_slice_def slice_index_def trunc_toward_zero_def)
  ultimately show ?thesis by simp
qed

text \<open>
  C6 as amended: whenever the segment length \<open>S = int(sr * stutter_factor)\<close> (the float
  product, truncated toward zero) is positive, in particular for \<open>0 < S \<le> L\<close> and \<open>S\<close>
  even, \<open>apply_stuttering_voice\<close> returns a buffer of length
  \<open>(L div S) * (S + S div 2)\<close> plus, for the last partial segment of \<open>L mod S\<close> samples,
  that segment and its first \<open>min (L mod S) (S div 2)\<close> samples. The output is the
  segments of the input in their order, each followed by its first \<open>S div 2\<close> samples.
  For \<open>L = 100\<close>, \<open>sr = 10\<close>, \<open>stutter_factor = 1\<close> the length is 150.
\<close>

theorem stutter_length_and_order:
  assumes "to_samples fl sr stutter_factor = Inr segment_length" and "0 < segment_length"
  shows "\<exists>out. apply_stuttering_voice fl audio_data sr stutter_factor = Inr out
           \<and> (let S = nat segment_length; L = length audio_data
              in length out = (L div S) * (S + S div 2) + (L mod S + min (L mod S) (S div 2))
                 \<and> out = concat (map (\<lambda>seg. seg @ take (S div 2) seg) (segments S audio_data))
                 \<and> concat (segments S audio_data) = audio_data)"
proof -
  define S where "S = nat segment_length"
  from assms(2) have S: "0 < S" by (simp add: S_def)
  have run: "apply_stuttering_voice fl audio_data sr stutter_factor
      = Inr (spec_stutter S audio_data)"
    unfolding S_def using assms by (rule apply_stuttering_voice_run)
  have "spec_stutter S audio_data
      = concat (map (\<lambda>seg. seg @ take (S div 2) seg) (segments S audio_data))"
    by (simp add: spec_stutter_def)
  with run length_spec_stutter [OF S, of audio_data] concat_segments [OF S, of audio_data]
  show ?thesis unfolding S_def [symmetric] Let_def by simp
qed

theorem stutter_length_and_order_witness:
  "to_samples exact_ops 10 1 = Inr 10 \<and> (0 :: int) < 10
   \<and> (\<exists>out. apply_stuttering_voice exact_ops (replicate 100 (0 :: int)) 10 1 = Inr out
          \<and> length out = 150)
   \<and> to_samples exact_ops 2 1 = Inr 2 \<and> (0 :: int) < 2
   \<and> (\<exists>out. apply_stuttering_voice exact_ops [1, 2, 3, 4, 5 :: int] 2 1 = Inr out
          \<and> length out = 8 \<and> out = [1, 2, 1, 3, 4, 3, 5, 5])"
proof -
  have S: "to_samples exact_ops 10 1 = Inr 10" "to_samples exact_ops 2 1 = Inr 2"
    by (simp_all add: to_samples_exact trunc_toward_zero_def)
  from stutter_length_and_order [OF S(1), of "replicate 100 (0 :: int)"]
  have a: "\<exists>out. apply_stuttering_voice exact_ops (replicate 100 (0 :: int)) 10 1 = Inr out
          \<and> length out = 150"
    by (auto simp add: Let_def)
  have segs: "segments 2 [1, 2, 3, 4, 5 :: int] = [[1, 2], [3, 4], [5]]"
    by (simp add: segments.simps)
  from stutter_length_and_order [OF S(2), of "[1, 2, 3, 4, 5 :: int]"]
  have "\<exists>out. apply_stuttering_voice exact_ops [1, 2, 3, 4, 5 :: int] 2 1 = Inr out
          \<and> length out = 8 \<and> out = [1, 2, 1, 3, 4, 3, 5, 5]"
    by (auto simp add: Let_def segs)
  with a S show ?thesis by simp
qed

text \<open>
  X3: every buffer of 100 samples gives 150 samples when the segment length
  \<open>int(sr * stutter_factor)\<close> is 10, as for \<open>sr = 10\<close> and \<open>stutter_factor = 1\<close>.
\<close>

theorem stutter_hundred_samples:
  assumes "to_samples fl sr stutter_factor = Inr 10" and "length audio_data = 100"
  shows "\<exists>out. apply_stuttering_voice fl audio_data sr stutter_factor = Inr out
           \<and> length out = 150"
proof -
  have "(0 :: int) < 10" by simp
  from apply_stuttering_voice_run [OF assms(1) this, of audio_data]
    length_spec_stutter [of 10 audio_data] assms(2)
  show ?thesis by simp
qed

theorem stutter_hundred_samples_witness:
  "to_samples exact_ops 10 1 = Inr 10 \<and> length (replicate 100 (0 :: real)) = 100
   \<and> (\<exists>out. apply_stuttering_voice exact_ops (replicate 100 (0 :: real)) 10 1 = Inr out
          \<and> length out = 150)"
proof -
  have S: "to_samples exact_ops 10 1 = Inr 10"
    by (simp add: to_samples_exact trunc_toward_zero_def)
  from stutter_hundred_samples [OF S, of "replicate 100 (0 :: real)"] S
  show ?thesis by simp
qed

subsection \<open>The haunted preset\<close>

text \<open>
  C7: \<open>apply_haunted_voice(b, sr)\<close> is \<open>apply_reverb(b, sr, 0.9)\<close> followed by
  \<open>apply_echo(_, sr, 0.3, 0.8)\<close>, in this order; an exception of the reverb's
  collaborator ends the call before the echo runs.
\<close>

theorem haunted_voice_composition:
  "apply_haunted_voice fl preemphasis b sr
     = (case apply_reverb preemphasis b sr (9 / 10) of
          Inl e \<Rightarrow> Inl e
        | Inr reverbed \<Rightarrow> apply_echo fl reverbed sr (3 / 10) (8 / 10))"
  unfolding apply_haunted_voice_def bind_result_def ..

subsection \<open>Noise\<close>











subsection \<open>Volume\<close>

text \<open>
  C1 fails on \<open>increase_volume\<close>: called on the array at address 0 holding \<open>[1, 2]\<close>
  with factor 3, it returns address 0, the array it was handed, and that array now
  holds \<open>[3, 6]\<close>.
\<close>

theorem increase_volume_mutates_input:
  "fst (increase_volume ((\<lambda>r. [])(0 := [1, 2 :: real])) 0 3) = 0
   \<and> snd (increase_volume ((\<lambda>r. [])(0 := [1, 2 :: real])) 0 3) 0 = [3, 6]
   \<and> ((\<lambda>r. [])(0 := [1, 2 :: real])) 0 = [1, 2]"
  by (simp add: increase_volume_def)

text \<open>
  X4: for every store, array and factor, \<open>increase_volume\<close> returns the array it was
  handed, and that array then holds the scaled samples.
\<close>

lemma increase_volume_in_place:
  "fst (increase_volume st audio_data volume_factor) = audio_data
   \<and> snd (increase_volume st audio_data volume_factor) audio_data
       = map (\<lambda>x. x * volume_factor) (st audio_data)"
  by (simp add: increase_volume_def)

subsection \<open>Girl voice\<close>

text \<open>
  When its collaborators return, \<open>apply_girl_voice\<close> returns a buffer only if the fade
  fits: the fade length \<open>int(0.03 * sr)\<close> is at least 1 and either at most the stretched
  buffer's length or equal to 1, or both the fade length and the stretched buffer's
  length are 0. Otherwise a slice product raises ValueError, also for the fade length
  0 on a buffer that is not empty.
\<close>

lemma linspace_length:
  "0 \<le> num \<Longrightarrow> \<exists>ys. linspace a b num = Inr ys \<and> length ys = nat num"
  by (simp add: linspace_def)

lemma linspace_negative: "num < 0 \<Longrightarrow> linspace a b num = Inl ValueError"
  by (simp add: linspace_def)

lemma imul_slice_front:
  assumes "0 \<le> F" and "length ys = nat F"
  shows "if nat F \<le> length xs \<or> F = 1
         then \<exists>zs. imul_slice xs 0 F ys = Inr zs \<and> length zs = length xs
         else imul_slice xs 0 F ys = Inl ValueError"
proof -
  have a: "slice_index (length xs) 0 = 0" by (simp add: slice_index_def)
  have b: "slice_index (length xs) F = min (length xs) (nat F)"
    using assms(1) by (simp add: slice_index_def)
  show ?thesis
  proof (cases "nat F \<le> length xs")
    case True
    then show ?thesis
      by (simp add: imul_slice_def a b assms(2) min_def Let_def)
  next
    case False
    then show ?thesis using assms
      by (auto simp add: imul_slice_def a b min_def Let_def)
  qed
qed

lemma imul_slice_back:
  assumes "0 \<le> F" and "length ys = nat F"
  shows "if (1 \<le> F \<and> (nat F \<le> length xs \<or> F = 1)) \<or> (F = 0 \<and> xs = [])
         then \<exists>zs. imul_slice xs (- F) (int (length xs)) ys = Inr zs \<and> length zs = length xs
         else imul_slice xs (- F) (int (length xs)) ys = Inl ValueError"
proof -
  have b: "slice_index (length xs) (int (length xs)) = length xs"
    by (simp add: slice_index_def)
  show ?thesis
  proof (cases "F = 0")
    case True
    have a: "slice_index (length xs) 0 = 0" by (simp add: slice_index_def)
    from True assms(2) have "ys = []" by simp
    with True show ?thesis
      by (auto simp add: imul_slice_def a b Let_def)
  next
    case False
    with assms(1) have pos: "1 \<le> F" by simp
    then have a: "slice_index (length xs) (- F) = length xs - nat F"
      by (auto simp add: slice_index_def)
    show ?thesis
    proof (cases "nat F \<le> length xs")
      case True
      with pos show ?thesis
        by (simp add: imul_slice_def a b assms(2) Let_def)
    next
      case False
      with pos assms show ?thesis
        by (auto simp add: imul_slice_def a b Let_def)
    qed
  qed
qed

lemma apply_girl_voice_outcome:
  assumes "pitch_shift audio_data sr 12 = Inr shifted"
    and "time_stretch shifted (12 / 10) = Inr stretched"
    and "to_samples fl sr (3 / 100) = Inr F"
  shows "if (1 \<le> F \<and> (nat F \<le> length stretched \<or> F = 1)) \<or> (F = 0 \<and> stretched = [])
         then \<exists>out. apply_girl_voice fl pitch_shift time_stretch audio_data sr = Inr out
                \<and> length out = length stretched
         else apply_girl_voice fl pitch_shift time_stretch audio_data sr = Inl ValueError"
proof -
  have unfold: "apply_girl_voice fl pitch_shift time_stretch audio_data sr =
     bind_result (linspace 0 1 F) (\<lambda>fade_in.
     bind_result (linspace 1 0 F) (\<lambda>fade_out.
     bind_result (imul_slice stretched 0 F fade_in) (\<lambda>girl_voice.
     imul_slice girl_voice (- F) (int (length girl_voice)) fade_out)))"
    by (simp only: apply_girl_voice_def assms bind_result_def sum.case)
  show ?thesis
  proof (cases "0 \<le> F")
    case False
    then have "linspace 0 1 F = Inl ValueError" by (simp add: linspace_negative)
    with False show ?thesis unfolding unfold
      by (simp add: bind_result_def)
  next
    case True
    from linspace_length [OF True, of 0 1] obtain fade_in
      where fin: "linspace 0 1 F = Inr fade_in" "length fade_in = nat F" by blast
    from linspace_length [OF True, of 1 0] obtain fade_out
      where fout: "linspace 1 0 F = Inr fade_out" "length fade_out = nat F" by blast
    have run: "apply_girl_voice fl pitch_shift time_stretch audio_data sr =
       bind_result (imul_slice stretched 0 F fade_in) (\<lambda>girl_voice.
       imul_slice girl_voice (- F) (int (length girl_voice)) fade_out)"
      by (simp add: unfold fin fout bind_result_def)
    show ?thesis
    proof (cases "nat F \<le> length stretched \<or> F = 1")
      case False
      with imul_slice_front [OF True fin(2), of stretched]
      have "imul_slice stretched 0 F fade_in = Inl ValueError" by simp
      with False True show ?thesis unfolding run
        by (auto simp add: bind_result_def)
    next
      case front: True
      with imul_slice_front [OF True fin(2), of stretched]
      obtain g where g: "imul_slice stretched 0 F fade_in = Inr g" "length g = length stretched"
        by auto
      have run2: "apply_girl_voice fl pitch_shift time_stretch audio_data sr
          = imul_slice g (- F) (int (length g)) fade_out"
        by (simp add: run g bind_result_def)
      from imul_slice_back [OF True fout(2), of g] g(2) front True
      show ?thesis unfolding run2
        by (auto split: if_splits)
    qed
  qed
qed

subsection \<open>Reversal\<close>

text \<open>
  C9: reversing a buffer twice gives the buffer back, sample for sample, and one
  reversal keeps the length.
\<close>

theorem reversed_voice_involution:
  "apply_reversed_voice (apply_reversed_voice b) = b
   \<and> length (apply_reversed_voice b) = length b"
  by (simp add: apply_reversed_voice_def)

end
